theory Spec2Isabelle
  imports Main "HOL-Library.Sublist" "HOL-Library.Multiset"
begin

section \<open>Data model of linear-kv (main.go)\<close>

text \<open>
  A \<^verbatim>\<open>time.Time\<close> is modelled by its clock reading, an integer; \<^verbatim>\<open>Before\<close> is \<open><\<close>,
  \<^verbatim>\<open>After\<close> is \<open>>\<close> and \<^verbatim>\<open>Sub\<close> is subtraction. Go strings are \<open>string\<close>; the
  fields \<^verbatim>\<open>Op\<close> and \<^verbatim>\<open>Result\<close> stay strings, as in the source.
\<close>

type_synonym Time = int

text \<open>\<^verbatim>\<open>type HistoryEntry struct\<close>: one record of the operation log.\<close>

record HistoryEntry =
  hRequestID :: string
  hOp :: string
  hKey :: string
  hValue :: string
  hResult :: string
  hStart :: Time
  hEnd :: Time
  hDuration :: int

text \<open>
  \<^verbatim>\<open>type Store struct\<close>. The mutex \<^verbatim>\<open>mu\<close> has no field here: each handler below is the
  state transition its critical section performs.
\<close>

record Store =
  kv :: "string \<rightharpoonup> string"
  seenWrite :: "string set"
  history :: "HistoryEntry list"

definition NewStore :: Store where
  "NewStore = \<lparr>kv = Map.empty, seenWrite = {}, history = []\<rparr>"

definition recordHistory :: "Store \<Rightarrow> HistoryEntry \<Rightarrow> Store" where
  "recordHistory s h = s\<lparr>history := history s @ [h]\<rparr>"

record putRequest =
  reqRequestID :: string
  reqKey :: string
  reqValue :: string

record getResponse =
  respKey :: string
  respValue :: string
  respFound :: bool
  respResult :: string

text \<open>
  What a handler writes to the \<^verbatim>\<open>http.ResponseWriter\<close>: \<^verbatim>\<open>http.Error(w, msg, code)\<close>, the
  JSON object \<^verbatim>\<open>{"result": r}\<close> of a PUT, the \<^verbatim>\<open>getResponse\<close> of a GET, the history copy,
  the timeline text (presentation only, its layout is not modelled) and the answer of
  \<^verbatim>\<open>/check\<close>.
\<close>

datatype response =
    HttpError string nat
  | PutJSON string
  | GetJSON getResponse
  | HistoryJSON "HistoryEntry list"
  | TimelineText
  | CheckJSON bool "string list" nat

section \<open>The store: handlePut and handleGet\<close>

text \<open>
  \<^verbatim>\<open>handlePut\<close>. The arguments \<open>start\<close> and \<open>endT\<close> are the two readings of
  \<^verbatim>\<open>time.Now()\<close>; \<open>body\<close> is the result of decoding the request body (\<open>None\<close> when the
  decoder returns an error). Both early returns leave the store as it is.
\<close>

definition handlePut :: "Store \<Rightarrow> Time \<Rightarrow> putRequest option \<Rightarrow> Time \<Rightarrow> response \<times> Store" where
  "handlePut s start body endT =
     (case body of
        None \<Rightarrow> (HttpError ''invalid JSON'' 400, s)
      | Some req \<Rightarrow>
          if reqRequestID req = [] \<or> reqKey req = []
          then (HttpError ''requestId and key required'' 400, s)
          else
            let exists = reqRequestID req \<in> seenWrite s;
                result = (if exists then ''duplicate'' else ''ok'');
                s1 = (if exists then s
                      else s\<lparr>kv := (kv s)(reqKey req \<mapsto> reqValue req),
                             seenWrite := insert (reqRequestID req) (seenWrite s)\<rparr>);
                s2 = recordHistory s1
                       \<lparr>hRequestID = reqRequestID req, hOp = ''PUT'', hKey = reqKey req,
                        hValue = reqValue req, hResult = result, hStart = start,
                        hEnd = endT, hDuration = endT - start\<rparr>
            in (PutJSON result, s2))"

text \<open>
  \<^verbatim>\<open>handleGet\<close>. \<open>key\<close> is the query parameter and \<open>reqID\<close> the header
  \<^verbatim>\<open>X-Request-ID\<close> (both empty when absent). A missing key reads as the empty string
  with \<open>ok = False\<close>, as a Go map lookup does.
\<close>

definition handleGet :: "Store \<Rightarrow> Time \<Rightarrow> string \<Rightarrow> string \<Rightarrow> Time \<Rightarrow> response \<times> Store" where
  "handleGet s start key reqID endT =
     (if key = [] then (HttpError ''key required'' 400, s)
      else
        let (val, ok) = (case kv s key of None \<Rightarrow> ([], False) | Some v \<Rightarrow> (v, True));
            res = (if ok then ''ok'' else ''not_found'');
            s1 = recordHistory s
                   \<lparr>hRequestID = reqID, hOp = ''GET'', hKey = key, hValue = val,
                    hResult = res, hStart = start, hEnd = endT, hDuration = endT - start\<rparr>
        in (GetJSON \<lparr>respKey = key, respValue = val, respFound = ok, respResult = res\<rparr>, s1))"

section \<open>The linearizability checker\<close>

text \<open>\<^verbatim>\<open>type Operation struct\<close>, and the conversion loop at the head of \<^verbatim>\<open>CheckLinearizability\<close>.\<close>

record Operation =
  ID :: string
  Op :: string
  Key :: string
  Value :: string
  Start :: Time
  End :: Time
  Result :: string
  ClientID :: string

definition toOperation :: "HistoryEntry \<Rightarrow> Operation" where
  "toOperation entry =
     \<lparr>ID = hRequestID entry, Op = hOp entry, Key = hKey entry, Value = hValue entry,
      Start = hStart entry, End = hEnd entry, Result = hResult entry,
      ClientID = hRequestID entry\<rparr>"

text \<open>
  \<^verbatim>\<open>sort.Slice(ops, func(i, j) bool { return ops[i].Start.Before(ops[j].Start) })\<close>.
  Go's \<^verbatim>\<open>sort.Slice\<close> is not stable. It sorts a slice of at most twelve elements by
  insertion sort, which keeps elements of equal \<open>Start\<close> in their order, as \<open>sort_key\<close>
  does. A longer slice goes to the library's pattern-defeating quicksort, which is not
  part of this repository: it is the parameter \<open>pdqsort\<close> of \<open>sortSlice\<close>, and of every
  function below that sorts. \<open>sortsByStart pdqsort\<close> is all that is assumed of it: its
  result is a permutation of its argument in ascending order of \<open>Start\<close>; the order it
  gives to elements of equal \<open>Start\<close> is left open.
\<close>

definition sortsByStart :: "(Operation list \<Rightarrow> Operation list) \<Rightarrow> bool" where
  "sortsByStart pdqsort =
     (\<forall>ops. mset (pdqsort ops) = mset ops \<and> sorted (map Start (pdqsort ops)))"

definition sortSlice :: "(Operation list \<Rightarrow> Operation list) \<Rightarrow> Operation list \<Rightarrow> Operation list" where
  "sortSlice pdqsort ops = (if length ops \<le> 12 then sort_key Start ops else pdqsort ops)"

text \<open>
  The inner loop of \<^verbatim>\<open>checkKeyConsistency\<close>: is there a PUT of this key and of the value
  read whose interval overlaps the read's? The outcome of the PUT is not looked at.
\<close>

definition overlappingPut :: "string \<Rightarrow> Operation \<Rightarrow> Operation list \<Rightarrow> bool" where
  "overlappingPut key op ops =
     list_ex (\<lambda>otherOp. Op otherOp = ''PUT'' \<and> Key otherOp = key \<and>
                Value otherOp = Value op \<and>
                Start otherOp < End op \<and> End otherOp > Start op) ops"

text \<open>
  The outer loop of \<^verbatim>\<open>checkKeyConsistency\<close> over the sorted slice \<open>ops\<close>, with
  \<open>latestValue\<close> as an argument; \<open>rest\<close> is what remains to visit.
\<close>

fun keyLoop :: "string \<Rightarrow> Operation list \<Rightarrow> string \<Rightarrow> Operation list \<Rightarrow> bool" where
  "keyLoop key ops latestValue [] = True"
| "keyLoop key ops latestValue (op # rest) =
     (if Op op = ''PUT'' \<and> Result op = ''ok'' then keyLoop key ops (Value op) rest
      else if Op op = ''GET'' then
        (if Result op = ''ok'' \<and> Value op \<noteq> latestValue
         then (if \<not> overlappingPut key op ops then False
               else keyLoop key ops latestValue rest)
         else keyLoop key ops latestValue rest)
      else keyLoop key ops latestValue rest)"

definition checkKeyConsistency ::
  "(Operation list \<Rightarrow> Operation list) \<Rightarrow> string \<Rightarrow> Operation list \<Rightarrow> bool" where
  "checkKeyConsistency pdqsort key ops =
     keyLoop key (sortSlice pdqsort ops) [] (sortSlice pdqsort ops)"

text \<open>
  \<^verbatim>\<open>checkReadYourWrite\<close>. \<open>lastWriteBefore cops key i\<close> is the loop
  \<^verbatim>\<open>for j := i - 1; j >= 0; j--\<close>: the value of the nearest PUT of \<open>key\<close> below index
  \<open>i\<close>, of any outcome, or the empty string. \<open>rywLoop cops i\<close> is the loop over the
  client's sorted operations from index \<open>i\<close> on.
\<close>

fun lastWriteBefore :: "Operation list \<Rightarrow> string \<Rightarrow> nat \<Rightarrow> string" where
  "lastWriteBefore cops key 0 = []"
| "lastWriteBefore cops key (Suc j) =
     (if Op (cops ! j) = ''PUT'' \<and> Key (cops ! j) = key then Value (cops ! j)
      else lastWriteBefore cops key j)"

function rywLoop :: "Operation list \<Rightarrow> nat \<Rightarrow> bool" where
  "rywLoop cops i =
     (if i < length cops then
        (if Op (cops ! i) = ''GET'' then
           (let lastWrite = lastWriteBefore cops (Key (cops ! i)) i in
            if lastWrite \<noteq> [] \<and> Value (cops ! i) \<noteq> lastWrite then False
            else rywLoop cops (Suc i))
         else rywLoop cops (Suc i))
      else True)"
  by pat_completeness auto
termination
  by (relation "measure (\<lambda>(cops, i). length cops - i)") auto

declare rywLoop.simps [simp del]

text \<open>
  The grouping \<^verbatim>\<open>clientOps[op.ClientID] = append(...)\<close>: the clients of a history, and
  one client's operations in log order, sorted by start. Go visits the groups in an
  unspecified order; the result, a conjunction, does not depend on it.
\<close>

definition clients :: "Operation list \<Rightarrow> string list" where
  "clients ops = remdups (map ClientID ops)"

definition clientOps ::
  "(Operation list \<Rightarrow> Operation list) \<Rightarrow> Operation list \<Rightarrow> string \<Rightarrow> Operation list" where
  "clientOps pdqsort ops c = sortSlice pdqsort (filter (\<lambda>op. ClientID op = c) ops)"

definition checkReadYourWrite :: "(Operation list \<Rightarrow> Operation list) \<Rightarrow> Operation list \<Rightarrow> bool" where
  "checkReadYourWrite pdqsort ops =
     list_all (\<lambda>c. rywLoop (clientOps pdqsort ops c) 0) (clients ops)"

text \<open>
  \<^verbatim>\<open>checkMonotonicReads\<close>. The loop keeps the last value each key was read with in
  \<open>keyValues\<close>; the branch taken when a read differs from it is empty in the source,
  and the function returns \<^verbatim>\<open>true\<close> after the loops.
\<close>

fun monotonicLoop :: "(string \<rightharpoonup> string) \<Rightarrow> Operation list \<Rightarrow> (string \<rightharpoonup> string)" where
  "monotonicLoop keyValues [] = keyValues"
| "monotonicLoop keyValues (op # rest) =
     (if Op op = ''GET'' \<and> Result op = ''ok''
      then monotonicLoop (keyValues(Key op \<mapsto> Value op)) rest
      else monotonicLoop keyValues rest)"

definition checkMonotonicReads :: "(Operation list \<Rightarrow> Operation list) \<Rightarrow> Operation list \<Rightarrow> bool" where
  "checkMonotonicReads pdqsort ops =
     (let visited = map (\<lambda>c. monotonicLoop Map.empty (clientOps pdqsort ops c)) (clients ops)
      in True)"

text \<open>
  \<^verbatim>\<open>CheckLinearizability\<close>. \<open>keyOps[op.Key]\<close> is the history's operations on that key in
  log order. Go ranges over the keys in an unspecified order, so the order of the
  per-key messages among themselves is one of those it may produce.
\<close>

definition keyMessage :: "string \<Rightarrow> string" where
  "keyMessage key = ''Key '' @ [CHR 0x27] @ key @ [CHR 0x27] @ '' has inconsistent operations''"

definition keysOf :: "Operation list \<Rightarrow> string list" where
  "keysOf ops = remdups (map Key ops)"

definition keyOps :: "Operation list \<Rightarrow> string \<Rightarrow> Operation list" where
  "keyOps ops key = filter (\<lambda>op. Key op = key) ops"

definition CheckLinearizability ::
  "(Operation list \<Rightarrow> Operation list) \<Rightarrow> HistoryEntry list \<Rightarrow> bool \<times> string list" where
  "CheckLinearizability pdqsort hist =
     (if length hist = 0 then (True, [])
      else
        let ops = map toOperation hist;
            v1 = concat (map (\<lambda>key. if \<not> checkKeyConsistency pdqsort key (keyOps ops key)
                                      then [keyMessage key] else []) (keysOf ops));
            v2 = v1 @ (if \<not> checkReadYourWrite pdqsort ops
                       then [''Read-your-write consistency violated''] else []);
            v3 = v2 @ (if \<not> checkMonotonicReads pdqsort ops
                       then [''Monotonic reads violated''] else [])
        in (length v3 = 0, v3))"

section \<open>The request multiplexer and runs of the server\<close>

text \<open>
  A request as \<^verbatim>\<open>main\<close>'s mux dispatches it: PUT or POST on \<^verbatim>\<open>/kv\<close> with the two clock
  readings and the decoded body, GET on \<^verbatim>\<open>/kv\<close> with the clock readings, key and
  request id, any other method on \<^verbatim>\<open>/kv\<close>, and the three read-only endpoints, which
  copy the history under the lock and work on the copy. A request to \<^verbatim>\<open>/check\<close> comes
  with the behaviour of the library's sort on long slices while it is served.
\<close>

datatype request =
    PutReq Time "putRequest option" Time
  | GetReq Time string string Time
  | OtherMethod
  | HistoryReq
  | TimelineReq
  | CheckReq "Operation list \<Rightarrow> Operation list"

fun serve :: "Store \<Rightarrow> request \<Rightarrow> response \<times> Store" where
  "serve s (PutReq start body endT) = handlePut s start body endT"
| "serve s (GetReq start key reqID endT) = handleGet s start key reqID endT"
| "serve s OtherMethod = (HttpError ''method not allowed'' 405, s)"
| "serve s HistoryReq = (HistoryJSON (history s), s)"
| "serve s TimelineReq = (TimelineText, s)"
| "serve s (CheckReq pdqsort) =
     (CheckJSON (fst (CheckLinearizability pdqsort (history s)))
                (snd (CheckLinearizability pdqsort (history s))) (length (history s)), s)"

fun run :: "Store \<Rightarrow> request list \<Rightarrow> Store" where
  "run s [] = s"
| "run s (r # rs) = run (snd (serve s r)) rs"

text \<open>
  The clock of a request is monotonic when its second reading of \<^verbatim>\<open>time.Now()\<close> is not
  before its first: Go's readings carry the monotonic clock, and \<^verbatim>\<open>Before\<close> compares
  by it.
\<close>

fun monotonicClock :: "request \<Rightarrow> bool" where
  "monotonicClock (PutReq start body endT) = (start \<le> endT)"
| "monotonicClock (GetReq start key reqID endT) = (start \<le> endT)"
| "monotonicClock r = True"

text \<open>An entry of a history, for writing histories down.\<close>

definition entry :: "string \<Rightarrow> string \<Rightarrow> string \<Rightarrow> string \<Rightarrow> string \<Rightarrow> Time \<Rightarrow> Time \<Rightarrow> HistoryEntry" where
  "entry rid opn key val res start endT =
     \<lparr>hRequestID = rid, hOp = opn, hKey = key, hValue = val, hResult = res,
      hStart = start, hEnd = endT, hDuration = endT - start\<rparr>"

section \<open>The read-your-writes property in the specification's words\<close>

text \<open>
  Not from the source: the property the specification states for the read-your-writes
  check, to compare \<open>checkReadYourWrite\<close> with. \<open>ownPriorPut g p\<close>: \<open>p\<close> is a successful
  PUT of the client of the GET \<open>g\<close>, to the same key, that started before \<open>g\<close> did.
  \<open>specReadYourWritesViolated\<close>: some GET returns a value other than that of its
  client's most recent own prior successful PUT \<open>p\<close>, and that value was written by
  a successful PUT that ended at or before the start of \<open>p\<close> (it is older than \<open>p\<close>
  in real time).
\<close>

definition ownPriorPut :: "Operation \<Rightarrow> Operation \<Rightarrow> bool" where
  "ownPriorPut g p =
     (Op p = ''PUT'' \<and> Result p = ''ok'' \<and> ClientID p = ClientID g \<and> Key p = Key g \<and>
      Start p < Start g)"

definition specReadYourWritesViolated :: "Operation list \<Rightarrow> bool" where
  "specReadYourWritesViolated ops =
     list_ex (\<lambda>g. Op g = ''GET'' \<and>
       list_ex (\<lambda>p. ownPriorPut g p \<and>
         list_all (\<lambda>q. \<not> (ownPriorPut g q \<and> Start p < Start q)) ops \<and>
         Value g \<noteq> Value p \<and>
         list_ex (\<lambda>w. Op w = ''PUT'' \<and> Result w = ''ok'' \<and> Key w = Key g \<and>
                    Value w = Value g \<and> End w \<le> Start p) ops) ops) ops"

section \<open>Properties of the store\<close>

subsection \<open>The dedup set only grows\<close>

lemma handlePut_seenWrite_mono:
  "seenWrite s \<subseteq> seenWrite (snd (handlePut s start body endT))"
  by (auto simp: handlePut_def recordHistory_def Let_def split: option.splits)

lemma handleGet_seenWrite:
  "seenWrite (snd (handleGet s start key reqID endT)) = seenWrite s"
  by (auto simp: handleGet_def recordHistory_def Let_def split: option.splits)

lemma serve_seenWrite_mono: "seenWrite s \<subseteq> seenWrite (snd (serve s r))"
  using handlePut_seenWrite_mono by (cases r) (simp_all add: handleGet_seenWrite)

lemma run_seenWrite_mono: "seenWrite s \<subseteq> seenWrite (run s reqs)"
proof (induction reqs arbitrary: s)
  case Nil
  show ?case by simp
next
  case (Cons r rs)
  have "seenWrite s \<subseteq> seenWrite (snd (serve s r))" by (rule serve_seenWrite_mono)
  also have "\<dots> \<subseteq> seenWrite (run (snd (serve s r)) rs)" by (rule Cons.IH)
  finally show ?case by simp
qed

lemma handlePut_duplicate:
  assumes "reqRequestID req \<in> seenWrite s" "reqRequestID req \<noteq> []" "reqKey req \<noteq> []"
  shows "handlePut s start (Some req) endT =
           (PutJSON ''duplicate'',
            s\<lparr>history := history s @
                 [entry (reqRequestID req) ''PUT'' (reqKey req) (reqValue req)
                    ''duplicate'' start endT]\<rparr>)"
  using assms by (simp add: handlePut_def recordHistory_def entry_def Let_def)

lemma handlePut_ok_seen:
  assumes "handlePut s0 t0 (Some req) t1 = (PutJSON ''ok'', s1)"
  shows "reqRequestID req \<in> seenWrite s1 \<and> reqRequestID req \<noteq> [] \<and> reqKey req \<noteq> []"
  using assms by (auto simp: handlePut_def recordHistory_def Let_def split: if_splits)

subsection \<open>Idempotent writes\<close>

text \<open>
  Claim C1. Let a PUT with request \<open>req\<close> (request id, key and value) have succeeded
  with outcome \<open>ok\<close>, leaving the store \<open>s1\<close>. After any further requests \<open>reqs\<close>,
  which may repeat the PUT any number of times, a PUT with the same \<open>req\<close> answers
  \<open>duplicate\<close> and leaves the key/value map and the dedup set as they were before
  the call.
\<close>

theorem put_idempotent:
  assumes "handlePut s0 t0 (Some req) t1 = (PutJSON ''ok'', s1)"
  shows "fst (handlePut (run s1 reqs) start (Some req) endT) = PutJSON ''duplicate'' \<and>
         kv (snd (handlePut (run s1 reqs) start (Some req) endT)) = kv (run s1 reqs) \<and>
         seenWrite (snd (handlePut (run s1 reqs) start (Some req) endT)) =
           seenWrite (run s1 reqs)"
proof -
  from handlePut_ok_seen [OF assms]
  have seen: "reqRequestID req \<in> seenWrite s1"
    and ne: "reqRequestID req \<noteq> []" "reqKey req \<noteq> []"
    by simp_all
  from seen run_seenWrite_mono have "reqRequestID req \<in> seenWrite (run s1 reqs)" by blast
  from handlePut_duplicate [OF this ne] show ?thesis by simp
qed

theorem put_idempotent_witness:
  "fst (handlePut
         (run (snd (handlePut NewStore 0
                      (Some \<lparr>reqRequestID = ''1'', reqKey = ''a'', reqValue = ''x''\<rparr>) 1))
            [GetReq 2 ''a'' [] 3,
             PutReq 4 (Some \<lparr>reqRequestID = ''2'', reqKey = ''a'', reqValue = ''z''\<rparr>) 5])
         6 (Some \<lparr>reqRequestID = ''1'', reqKey = ''a'', reqValue = ''x''\<rparr>) 7)
     = PutJSON ''duplicate''"
proof -
  have first:
    "handlePut NewStore 0 (Some \<lparr>reqRequestID = ''1'', reqKey = ''a'', reqValue = ''x''\<rparr>) 1 =
       (PutJSON ''ok'',
        snd (handlePut NewStore 0
               (Some \<lparr>reqRequestID = ''1'', reqKey = ''a'', reqValue = ''x''\<rparr>) 1))"
    by (simp add: handlePut_def NewStore_def Let_def)
  from put_idempotent [OF first] show ?thesis by blast
qed

text \<open>
  Claim C10, as amended. The dedup set is keyed by the request id alone. In every store
  whose dedup set holds the request id of a valid PUT (request id and key not empty),
  the PUT answers \<open>duplicate\<close> whatever its key and value are, and the key/value map
  and the dedup set stay as they were. The store as a whole does not stay as it was:
  the log gains the record of the duplicate.
\<close>

theorem dedup_by_requestId_alone:
  assumes "reqRequestID req \<in> seenWrite s" "reqRequestID req \<noteq> []" "reqKey req \<noteq> []"
  shows "fst (handlePut s start (Some req) endT) = PutJSON ''duplicate'' \<and>
         kv (snd (handlePut s start (Some req) endT)) = kv s \<and>
         seenWrite (snd (handlePut s start (Some req) endT)) = seenWrite s \<and>
         history (snd (handlePut s start (Some req) endT)) = history s @
           [entry (reqRequestID req) ''PUT'' (reqKey req) (reqValue req)
              ''duplicate'' start endT]"
  using handlePut_duplicate [OF assms] by simp

theorem dedup_by_requestId_alone_witness:
  "fst (handlePut \<lparr>kv = [''a'' \<mapsto> ''x''], seenWrite = {''1''}, history = []\<rparr> 2
         (Some \<lparr>reqRequestID = ''1'', reqKey = ''b'', reqValue = ''z''\<rparr>) 3)
     = PutJSON ''duplicate'' \<and>
   kv (snd (handlePut \<lparr>kv = [''a'' \<mapsto> ''x''], seenWrite = {''1''}, history = []\<rparr> 2
         (Some \<lparr>reqRequestID = ''1'', reqKey = ''b'', reqValue = ''z''\<rparr>) 3)) ''b'' = None"
  using dedup_by_requestId_alone
    [of "\<lparr>reqRequestID = ''1'', reqKey = ''b'', reqValue = ''z''\<rparr>"
        "\<lparr>kv = [''a'' \<mapsto> ''x''], seenWrite = {''1''}, history = []\<rparr>" 2 3]
  by simp

text \<open>
  The claim as stated, that the duplicate PUT changes nothing, fails on the log: after a
  first PUT with request id \<open>1\<close>, a second PUT with that id and another key and value
  answers \<open>duplicate\<close>, and the store after it differs from the store before it by
  the record appended to the log.
\<close>

theorem dedup_by_requestId_alone_counterexample:
  "fst (handlePut
         (snd (handlePut NewStore 0
                 (Some \<lparr>reqRequestID = ''1'', reqKey = ''a'', reqValue = ''x''\<rparr>) 1))
         2 (Some \<lparr>reqRequestID = ''1'', reqKey = ''b'', reqValue = ''z''\<rparr>) 3)
     = PutJSON ''duplicate'' \<and>
   snd (handlePut
         (snd (handlePut NewStore 0
                 (Some \<lparr>reqRequestID = ''1'', reqKey = ''a'', reqValue = ''x''\<rparr>) 1))
         2 (Some \<lparr>reqRequestID = ''1'', reqKey = ''b'', reqValue = ''z''\<rparr>) 3)
     \<noteq> snd (handlePut NewStore 0
                 (Some \<lparr>reqRequestID = ''1'', reqKey = ''a'', reqValue = ''x''\<rparr>) 1) \<and>
   history (snd (handlePut
         (snd (handlePut NewStore 0
                 (Some \<lparr>reqRequestID = ''1'', reqKey = ''a'', reqValue = ''x''\<rparr>) 1))
         2 (Some \<lparr>reqRequestID = ''1'', reqKey = ''b'', reqValue = ''z''\<rparr>) 3))
     = [entry ''1'' ''PUT'' ''a'' ''x'' ''ok'' 0 1,
        entry ''1'' ''PUT'' ''b'' ''z'' ''duplicate'' 2 3]"
  by (simp add: handlePut_def NewStore_def recordHistory_def entry_def Let_def)

subsection \<open>Invalid arguments\<close>

text \<open>
  Claim C7. A PUT whose body decodes to \<open>req\<close> is refused with the client error
  \<open>requestId and key required\<close> (status 400) exactly when its request id or its key
  is empty, a GET is refused with \<open>key required\<close> (status 400) exactly when its key
  is empty, and a refused request leaves the whole store, log included, unchanged.
\<close>

theorem invalid_argument:
  "(fst (handlePut s start (Some req) endT) = HttpError ''requestId and key required'' 400
      \<longleftrightarrow> (reqRequestID req = [] \<or> reqKey req = [])) \<and>
   ((reqRequestID req = [] \<or> reqKey req = []) \<longrightarrow>
      snd (handlePut s start (Some req) endT) = s) \<and>
   (fst (handleGet s start key reqID endT) = HttpError ''key required'' 400 \<longleftrightarrow> key = []) \<and>
   (key = [] \<longrightarrow> snd (handleGet s start key reqID endT) = s)"
  by (auto simp: handlePut_def handleGet_def Let_def split: option.splits prod.splits)

theorem invalid_argument_witness:
  "snd (handlePut NewStore 0 (Some \<lparr>reqRequestID = [], reqKey = ''a'', reqValue = ''x''\<rparr>) 1)
     = NewStore \<and>
   snd (handleGet NewStore 0 [] ''r'' 1) = NewStore \<and>
   fst (handlePut NewStore 0 (Some \<lparr>reqRequestID = ''1'', reqKey = ''a'', reqValue = ''x''\<rparr>) 1)
     \<noteq> HttpError ''requestId and key required'' 400"
  using invalid_argument
    [of NewStore 0 "\<lparr>reqRequestID = [], reqKey = ''a'', reqValue = ''x''\<rparr>" 1 "[]" "''r''"]
    invalid_argument
    [of NewStore 0 "\<lparr>reqRequestID = ''1'', reqKey = ''a'', reqValue = ''x''\<rparr>" 1 "[]" "''r''"]
  by simp

subsection \<open>The operation log\<close>

lemma serve_history:
  "history (snd (serve s r)) = history s \<or>
   (\<exists>e. history (snd (serve s r)) = history s @ [e] \<and>
        (monotonicClock r \<longrightarrow> hStart e \<le> hEnd e))"
  by (cases r)
     (auto simp: handlePut_def handleGet_def recordHistory_def Let_def
           split: option.splits prod.splits)

lemma serve_prefix: "prefix (history s) (history (snd (serve s r)))"
  using serve_history [of s r] by auto

lemma serve_invariant:
  assumes "\<forall>e\<in>set (history s). hStart e \<le> hEnd e" "monotonicClock r"
  shows "\<forall>e\<in>set (history (snd (serve s r))). hStart e \<le> hEnd e"
  using serve_history [of s r] assms by auto

text \<open>
  Claim C8. Let every entry of the log of \<open>s\<close> have its start at or before its end (as
  in the empty log of \<open>NewStore\<close>), and let the requests \<open>reqs\<close> be served with a
  monotonic clock. Then every entry of the log after the run has its start at or
  before its end, and the log before the run is a prefix of the log after it: a
  handler appends a finished record, end time included, and no request changes or
  removes a record already in the log.
\<close>

theorem log_invariant:
  assumes "\<forall>e\<in>set (history s). hStart e \<le> hEnd e"
    and "\<forall>r\<in>set reqs. monotonicClock r"
  shows "(\<forall>e\<in>set (history (run s reqs)). hStart e \<le> hEnd e) \<and>
         prefix (history s) (history (run s reqs))"
  using assms
proof (induction reqs arbitrary: s)
  case Nil
  then show ?case by simp
next
  case (Cons r rs)
  have inv: "\<forall>e\<in>set (history (snd (serve s r))). hStart e \<le> hEnd e"
  proof (rule serve_invariant)
    show "\<forall>e\<in>set (history s). hStart e \<le> hEnd e" by (rule Cons.prems(1))
    show "monotonicClock r" using Cons.prems(2) by simp
  qed
  have "(\<forall>e\<in>set (history (run (snd (serve s r)) rs)). hStart e \<le> hEnd e) \<and>
        prefix (history (snd (serve s r))) (history (run (snd (serve s r)) rs))"
    using Cons.IH [OF inv] Cons.prems by simp
  moreover have "prefix (history s) (history (snd (serve s r)))" by (rule serve_prefix)
  ultimately show ?case by (auto intro: prefix_order.trans)
qed

theorem log_invariant_witness:
  "hStart (history (run NewStore
       [PutReq 0 (Some \<lparr>reqRequestID = ''1'', reqKey = ''a'', reqValue = ''x''\<rparr>) 1,
        PutReq 2 (Some \<lparr>reqRequestID = ''1'', reqKey = ''a'', reqValue = ''x''\<rparr>) 3,
        GetReq 4 ''a'' [] 5]) ! 2)
   \<le> hEnd (history (run NewStore
       [PutReq 0 (Some \<lparr>reqRequestID = ''1'', reqKey = ''a'', reqValue = ''x''\<rparr>) 1,
        PutReq 2 (Some \<lparr>reqRequestID = ''1'', reqKey = ''a'', reqValue = ''x''\<rparr>) 3,
        GetReq 4 ''a'' [] 5]) ! 2) \<and>
   length (history (run NewStore
       [PutReq 0 (Some \<lparr>reqRequestID = ''1'', reqKey = ''a'', reqValue = ''x''\<rparr>) 1,
        PutReq 2 (Some \<lparr>reqRequestID = ''1'', reqKey = ''a'', reqValue = ''x''\<rparr>) 3,
        GetReq 4 ''a'' [] 5])) = 3"
  using log_invariant [of NewStore
       "[PutReq 0 (Some \<lparr>reqRequestID = ''1'', reqKey = ''a'', reqValue = ''x''\<rparr>) 1,
        PutReq 2 (Some \<lparr>reqRequestID = ''1'', reqKey = ''a'', reqValue = ''x''\<rparr>) 3,
        GetReq 4 ''a'' [] 5]"]
  by (simp add: NewStore_def handlePut_def handleGet_def recordHistory_def Let_def)

section \<open>Properties of the checker\<close>

subsection \<open>The sort\<close>

lemma sortSlice_set:
  "sortsByStart pdqsort \<Longrightarrow> set (sortSlice pdqsort ops) = set ops"
  by (auto simp: sortSlice_def sortsByStart_def dest: mset_eq_setD)

lemma sortSlice_sorted:
  "sortsByStart pdqsort \<Longrightarrow> sorted (map Start (sortSlice pdqsort ops))"
  by (simp add: sortSlice_def sortsByStart_def)

lemma sortsByStart_sort_key: "sortsByStart (sort_key Start)"
  by (simp add: sortsByStart_def)

subsection \<open>An unexplained read is reported\<close>

lemma overlappingPut_iff:
  "overlappingPut key op ops \<longleftrightarrow>
     (\<exists>w\<in>set ops. Op w = ''PUT'' \<and> Key w = key \<and> Value w = Value op \<and>
                  Start w < End op \<and> Start op < End w)"
  by (auto simp: overlappingPut_def list_ex_iff)

lemma keyLoop_unexplained_read:
  assumes "sorted (map Start xs)" "g \<in> set xs"
    and "Op g = ''GET''" "Result g = ''ok''" "Value g \<noteq> latestValue"
    and "\<not> overlappingPut key g ops"
    and "\<forall>w\<in>set xs. Op w = ''PUT'' \<and> Result w = ''ok'' \<and> Value w = Value g \<longrightarrow>
           Start g < Start w"
  shows "\<not> keyLoop key ops latestValue xs"
  using assms
proof (induction xs arbitrary: latestValue)
  case Nil
  then show ?case by simp
next
  case (Cons op rest)
  show ?case
  proof (cases "op = g")
    case True
    with Cons.prems show ?thesis by simp
  next
    case False
    with Cons.prems have g_rest: "g \<in> set rest" by simp
    from Cons.prems(1) g_rest have le: "Start op \<le> Start g" by auto
    from Cons.prems(1) have srt: "sorted (map Start rest)" by simp
    from Cons.prems(7)
    have later: "\<forall>w\<in>set rest. Op w = ''PUT'' \<and> Result w = ''ok'' \<and> Value w = Value g \<longrightarrow>
                   Start g < Start w"
      by simp
    have step: "\<not> keyLoop key ops v rest" if "Value g \<noteq> v" for v
      using Cons.IH [OF srt g_rest Cons.prems(3) Cons.prems(4) that Cons.prems(6) later] .
    show ?thesis
    proof (cases "Op op = ''PUT'' \<and> Result op = ''ok''")
      case True
      have "Value op \<noteq> Value g"
      proof
        assume "Value op = Value g"
        with True Cons.prems(7) have "Start g < Start op" by simp
        with le show False by simp
      qed
      then have "\<not> keyLoop key ops (Value op) rest" using step by simp
      with True show ?thesis by simp
    next
      case False
      from step [OF Cons.prems(5)] False show ?thesis by auto
    qed
  qed
qed

lemma checkKeyConsistency_unexplained_read:
  assumes "sortsByStart pdqsort"
    and "g \<in> set ops" "Op g = ''GET''" "Result g = ''ok''" "Value g \<noteq> []"
    and "\<forall>w\<in>set ops. Op w = ''PUT'' \<and> Key w = key \<and> Value w = Value g \<longrightarrow>
           End g \<le> Start w \<and> Start g < Start w"
    and "\<forall>w\<in>set ops. Key w = key"
  shows "\<not> checkKeyConsistency pdqsort key ops"
  unfolding checkKeyConsistency_def
proof (rule keyLoop_unexplained_read [where g = g])
  show "sorted (map Start (sortSlice pdqsort ops))"
    using assms(1) by (rule sortSlice_sorted)
  show "g \<in> set (sortSlice pdqsort ops)"
    using assms(1,2) by (simp add: sortSlice_set)
  show "Op g = ''GET''" "Result g = ''ok''" "Value g \<noteq> []" by (rule assms)+
  show "\<not> overlappingPut key g (sortSlice pdqsort ops)"
    using assms(1,6) by (auto simp: overlappingPut_iff sortSlice_set)
  show "\<forall>w\<in>set (sortSlice pdqsort ops).
          Op w = ''PUT'' \<and> Result w = ''ok'' \<and> Value w = Value g \<longrightarrow> Start g < Start w"
    using assms(1,6,7) by (simp add: sortSlice_set)
qed

lemma keyMessage_reported:
  assumes "hist \<noteq> []" "key \<in> set (map hKey hist)"
    and "\<not> checkKeyConsistency pdqsort key (keyOps (map toOperation hist) key)"
  shows "fst (CheckLinearizability pdqsort hist) = False \<and>
         keyMessage key \<in> set (snd (CheckLinearizability pdqsort hist))"
proof -
  have "Key \<circ> toOperation = hKey" by (auto simp: toOperation_def)
  with assms(2) have "key \<in> set (keysOf (map toOperation hist))"
    by (simp add: keysOf_def)
  with assms(3) have "keyMessage key \<in> set (snd (CheckLinearizability pdqsort hist))"
    using assms(1) by (auto simp: CheckLinearizability_def Let_def)
  moreover from this have "fst (CheckLinearizability pdqsort hist) = False"
    using assms(1) by (auto simp: CheckLinearizability_def Let_def)
  ultimately show ?thesis by simp
qed

text \<open>
  Claim C3, as amended. Let the library's sort on long slices sort by start, let a
  history hold a GET \<open>g\<close> with outcome \<open>ok\<close> that returns a non-empty value, and let
  every PUT record of that key and value start at or after the end of \<open>g\<close> and
  strictly after the start of \<open>g\<close> (the second follows from the first when the
  interval of \<open>g\<close> has positive length). Then \<open>CheckLinearizability\<close> answers \<open>False\<close>
  and its messages include the one naming the key of \<open>g\<close>, whatever order the sort
  gives to operations of equal start.
\<close>

theorem violation_detected:
  assumes "sortsByStart pdqsort"
    and "g \<in> set hist" "hOp g = ''GET''" "hResult g = ''ok''" "hValue g \<noteq> []"
    and "\<forall>w\<in>set hist. hOp w = ''PUT'' \<and> hKey w = hKey g \<and> hValue w = hValue g \<longrightarrow>
           hEnd g \<le> hStart w \<and> hStart g < hStart w"
  shows "fst (CheckLinearizability pdqsort hist) = False \<and>
         keyMessage (hKey g) \<in> set (snd (CheckLinearizability pdqsort hist))"
proof (rule keyMessage_reported)
  show "hist \<noteq> []" using assms(2) by auto
  show "hKey g \<in> set (map hKey hist)" using assms(2) by simp
  show "\<not> checkKeyConsistency pdqsort (hKey g) (keyOps (map toOperation hist) (hKey g))"
  proof (rule checkKeyConsistency_unexplained_read [where g = "toOperation g"])
    show "sortsByStart pdqsort" by (rule assms(1))
    show "toOperation g \<in> set (keyOps (map toOperation hist) (hKey g))"
      using assms(2) by (simp add: keyOps_def toOperation_def)
    show "Op (toOperation g) = ''GET''" "Result (toOperation g) = ''ok''"
      "Value (toOperation g) \<noteq> []"
      using assms(3-5) by (simp_all add: toOperation_def)
    show "\<forall>w\<in>set (keyOps (map toOperation hist) (hKey g)). Key w = hKey g"
      by (simp add: keyOps_def)
    show "\<forall>w\<in>set (keyOps (map toOperation hist) (hKey g)).
            Op w = ''PUT'' \<and> Key w = hKey g \<and> Value w = Value (toOperation g) \<longrightarrow>
            End (toOperation g) \<le> Start w \<and> Start (toOperation g) < Start w"
      using assms(6) by (auto simp: keyOps_def toOperation_def)
  qed
qed

theorem violation_detected_witness:
  "fst (CheckLinearizability (sort_key Start)
          [entry ''r2'' ''GET'' ''k'' ''y'' ''ok'' 1 2, entry ''r1'' ''PUT'' ''k'' ''y'' ''ok'' 3 4])
     = False \<and>
   keyMessage ''k'' \<in> set (snd (CheckLinearizability (sort_key Start)
          [entry ''r2'' ''GET'' ''k'' ''y'' ''ok'' 1 2, entry ''r1'' ''PUT'' ''k'' ''y'' ''ok'' 3 4]))"
  using violation_detected
    [OF sortsByStart_sort_key,
     of "entry ''r2'' ''GET'' ''k'' ''y'' ''ok'' 1 2"
        "[entry ''r2'' ''GET'' ''k'' ''y'' ''ok'' 1 2, entry ''r1'' ''PUT'' ''k'' ''y'' ''ok'' 3 4]"]
  by (simp add: entry_def)

text \<open>
  The claim as stated, with \<open>Get.end \<le> write.start\<close> alone, fails when the GET has an
  interval of length zero that starts where the write starts: the store itself
  produces the history below when the clock reads 5 throughout a PUT and the GET
  that follows it, the end of the GET is not after the start of the PUT, and the
  checker accepts the history. The history has two records, which Go sorts by
  insertion; the sort given for long slices plays no part.
\<close>

theorem violation_detected_counterexample:
  "history (run NewStore
      [PutReq 5 (Some \<lparr>reqRequestID = ''r1'', reqKey = ''k'', reqValue = ''y''\<rparr>) 5,
       GetReq 5 ''k'' ''r2'' 5])
     = [entry ''r1'' ''PUT'' ''k'' ''y'' ''ok'' 5 5, entry ''r2'' ''GET'' ''k'' ''y'' ''ok'' 5 5] \<and>
   hEnd (entry ''r2'' ''GET'' ''k'' ''y'' ''ok'' 5 5)
     \<le> hStart (entry ''r1'' ''PUT'' ''k'' ''y'' ''ok'' 5 5) \<and>
   CheckLinearizability (sort_key Start)
     [entry ''r1'' ''PUT'' ''k'' ''y'' ''ok'' 5 5, entry ''r2'' ''GET'' ''k'' ''y'' ''ok'' 5 5]
     = (True, [])"
  by code_simp

subsection \<open>Duplicate writes in the per-key check\<close>

text \<open>
  Claim C2. The claim says that a PUT with outcome \<open>duplicate\<close> never explains the
  value a GET returns. In the source the running \<open>latestValue\<close> takes only PUTs with
  outcome \<open>ok\<close>, but the search for an overlapping PUT does not look at the outcome.
  With the duplicate PUT of value \<open>y\<close> overlapping the GET the history is accepted;
  without that record the same GET is reported.
\<close>

theorem duplicate_put_explains_read:
  "CheckLinearizability pdqsort
     [entry ''r1'' ''PUT'' ''k'' ''x'' ''ok'' 0 1,
      entry ''r1'' ''PUT'' ''k'' ''y'' ''duplicate'' 2 5,
      entry ''r3'' ''GET'' ''k'' ''y'' ''ok'' 3 4] = (True, []) \<and>
   CheckLinearizability pdqsort
     [entry ''r1'' ''PUT'' ''k'' ''x'' ''ok'' 0 1,
      entry ''r3'' ''GET'' ''k'' ''y'' ''ok'' 3 4] = (False, [keyMessage ''k''])"
  by code_simp

subsection \<open>Reads that find nothing\<close>

text \<open>
  Claim C6. The claim says that a GET with outcome \<open>not_found\<close> that starts after the
  end of a successful PUT to its key is reported. The per-key loop compares only GETs
  with outcome \<open>ok\<close>: the history below, a successful PUT followed by a \<open>not_found\<close>
  GET of another client, is accepted with no message.
\<close>

theorem not_found_after_put_accepted:
  "CheckLinearizability pdqsort
     [entry ''r1'' ''PUT'' ''k'' ''x'' ''ok'' 0 1,
      entry ''r2'' ''GET'' ''k'' [] ''not_found'' 2 3] = (True, [])"
  by code_simp

subsection \<open>Monotonic reads\<close>

text \<open>
  Claim C4. The claim says that a client reading an older value after a newer one
  gets a monotonic-reads violation. \<open>checkMonotonicReads\<close> answers \<open>True\<close> on every
  list of operations, so its message is in no answer of the checker; on the history
  below, where client \<open>c1\<close> reads \<open>new\<close> and then the superseded \<open>old\<close>, the only
  message is the per-key one.
\<close>

theorem monotonic_reads_never_reported:
  "checkMonotonicReads pdqsort ops \<and>
   ''Monotonic reads violated'' \<notin> set (snd (CheckLinearizability pdqsort hist)) \<and>
   CheckLinearizability pdqsort
     [entry ''w1'' ''PUT'' ''k'' ''old'' ''ok'' 0 1,
      entry ''w2'' ''PUT'' ''k'' ''new'' ''ok'' 2 3,
      entry ''c1'' ''GET'' ''k'' ''new'' ''ok'' 4 5,
      entry ''c1'' ''GET'' ''k'' ''old'' ''ok'' 6 7] = (False, [keyMessage ''k''])"
proof (intro conjI)
  show "checkMonotonicReads pdqsort ops" by (simp add: checkMonotonicReads_def)
  show "''Monotonic reads violated'' \<notin> set (snd (CheckLinearizability pdqsort hist))"
    by (auto simp: CheckLinearizability_def Let_def checkMonotonicReads_def keyMessage_def)
  show "CheckLinearizability pdqsort
     [entry ''w1'' ''PUT'' ''k'' ''old'' ''ok'' 0 1,
      entry ''w2'' ''PUT'' ''k'' ''new'' ''ok'' 2 3,
      entry ''c1'' ''GET'' ''k'' ''new'' ''ok'' 4 5,
      entry ''c1'' ''GET'' ''k'' ''old'' ''ok'' 6 7] = (False, [keyMessage ''k''])"
    by code_simp
qed

subsection \<open>Read your writes\<close>

text \<open>
  Claim C5. The claim says that the read-your-writes check fails exactly when a GET
  returns a value older than its client's own most recent prior successful PUT to
  the key. \<open>checkReadYourWrite\<close> tests the value of the GET against the value of the
  client's nearest earlier PUT for inequality, whichever of the two is older. The
  history below is the store's own log when client \<open>r1\<close> writes \<open>x\<close>, client \<open>r2\<close> then
  writes \<open>y\<close>, and \<open>r1\<close> then reads: the GET returns \<open>y\<close>, the newest value, so no value
  older than the own write of \<open>r1\<close> was read (the property in the specification's
  words is false of the history), and yet the check fails and the checker answers
  that the history is not linearizable.
\<close>

theorem read_your_write_false_alarm:
  "history (run NewStore
      [PutReq 0 (Some \<lparr>reqRequestID = ''r1'', reqKey = ''k'', reqValue = ''x''\<rparr>) 1,
       PutReq 2 (Some \<lparr>reqRequestID = ''r2'', reqKey = ''k'', reqValue = ''y''\<rparr>) 3,
       GetReq 4 ''k'' ''r1'' 5])
     = [entry ''r1'' ''PUT'' ''k'' ''x'' ''ok'' 0 1, entry ''r2'' ''PUT'' ''k'' ''y'' ''ok'' 2 3,
      entry ''r1'' ''GET'' ''k'' ''y'' ''ok'' 4 5] \<and>
   \<not> checkReadYourWrite pdqsort (map toOperation
     [entry ''r1'' ''PUT'' ''k'' ''x'' ''ok'' 0 1, entry ''r2'' ''PUT'' ''k'' ''y'' ''ok'' 2 3,
      entry ''r1'' ''GET'' ''k'' ''y'' ''ok'' 4 5]) \<and>
   CheckLinearizability pdqsort
     [entry ''r1'' ''PUT'' ''k'' ''x'' ''ok'' 0 1, entry ''r2'' ''PUT'' ''k'' ''y'' ''ok'' 2 3,
      entry ''r1'' ''GET'' ''k'' ''y'' ''ok'' 4 5]
     = (False, [''Read-your-write consistency violated'']) \<and>
   \<not> specReadYourWritesViolated (map toOperation
     [entry ''r1'' ''PUT'' ''k'' ''x'' ''ok'' 0 1, entry ''r2'' ''PUT'' ''k'' ''y'' ''ok'' 2 3,
      entry ''r1'' ''GET'' ''k'' ''y'' ''ok'' 4 5])"
  by code_simp

end
